theory Spec2Isabelle
  imports Main
begin

section \<open>Python string primitives used by the message handler\<close>

text \<open>
  A Python \<open>str\<close> is a sequence of code points. The model is \<open>string\<close>, where a
  \<open>char\<close> stands for the code point of the same number (U+0000 to U+00FF), so every
  value of the type is a Python string and the functions below compute what CPython
  computes on it.

  \<open>str.isspace\<close>, and the separators of \<open>str.split()\<close> and \<open>str.strip()\<close> without
  arguments: the code points 9 to 13, 28 to 32, 133 and 160.
\<close>

definition isspace :: "char \<Rightarrow> bool" where
  "isspace c = (let n = (of_char c :: nat) in
     (9 \<le> n \<and> n \<le> 13) \<or> (28 \<le> n \<and> n \<le> 32) \<or> n = 133 \<or> n = 160)"

text \<open>
  \<open>str.lower\<close> on one code point: A to Z, and the upper-case letters of Latin-1
  (192 to 222 without the multiplication sign 215), move up by 32; nothing else changes.
\<close>

definition lower_char :: "char \<Rightarrow> char" where
  "lower_char c = (let n = (of_char c :: nat) in
     if (65 \<le> n \<and> n \<le> 90) \<or> (192 \<le> n \<and> n \<le> 222 \<and> n \<noteq> 215)
     then char_of (n + 32) else c)"

definition lower :: "string \<Rightarrow> string" where
  "lower s = map lower_char s"

definition strip :: "string \<Rightarrow> string" where
  "strip s = rev (dropWhile isspace (rev (dropWhile isspace s)))"

fun startswith :: "string \<Rightarrow> string \<Rightarrow> bool" where
  "startswith s [] = True"
| "startswith [] (p # ps) = False"
| "startswith (c # cs) (p # ps) = (c = p \<and> startswith cs ps)"

text \<open>
  \<open>str.split()\<close> without arguments: the maximal runs of non-whitespace characters, in
  order; runs of whitespace separate them and produce no empty string.
  \<open>split_from cur s\<close> scans \<open>s\<close> with the token read so far in \<open>cur\<close>.
\<close>

fun split_from :: "string \<Rightarrow> string \<Rightarrow> string list" where
  "split_from cur [] = (if cur = [] then [] else [cur])"
| "split_from cur (c # cs) =
     (if isspace c then (if cur = [] then split_from [] cs else cur # split_from [] cs)
      else split_from (cur @ [c]) cs)"

definition split :: "string \<Rightarrow> string list" where
  "split s = split_from [] s"

text \<open>\<open>str(n)\<close> of an integer: its decimal digits, with a minus sign when negative.\<close>

fun str_nat :: "nat \<Rightarrow> string" where
  "str_nat n =
     (if n < 10 then [char_of (48 + n)]
      else str_nat (n div 10) @ [char_of (48 + n mod 10)])"

definition str :: "int \<Rightarrow> string" where
  "str i = (if i < 0 then CHR ''-'' # str_nat (nat (- i)) else str_nat (nat i))"


section \<open>Data\<close>

text \<open>
  The fields of a discord.py message that \<open>on_message\<close> reads: \<open>message.guild\<close>
  (\<open>None\<close> in a direct message) with its \<open>id\<close> and \<open>name\<close>, \<open>message.author.bot\<close>,
  \<open>message.author.id\<close>, \<open>message.author.mention\<close>, \<open>message.content\<close> and
  \<open>message.channel.id\<close>.
\<close>

record guild =
  gid :: int
  gname :: string

record message =
  guild :: "guild option"
  author_bot :: bool
  author_id :: int
  author_mention :: string
  content :: string
  channel_id :: int

text \<open>
  One entry of \<open>flagged_words.json\<close>, a dictionary read only through
  \<open>config.get\<close>: every key may be absent (\<open>None\<close>), and a value that is present has
  the type the handler uses it at. The fields are the keys \<open>"sync_global"\<close>,
  \<open>"channel"\<close>, \<open>"words"\<close> and \<open>"message"\<close>; the last one is the field
  \<open>response\<close>, since \<open>message\<close> names the record of the incoming message.
\<close>

record flagged_config =
  sync_global :: "bool option"
  channel :: "int option"
  words :: "string list option"
  response :: "string option"

text \<open>
  \<open>PlasticBot\<close>: the blacklist (a set of user ids), the prefixes and the flagged-word
  entries, the last two keyed by \<open>str(guild.id)\<close>.
\<close>

record bot =
  blacklist :: "int set"
  prefixes :: "string \<rightharpoonup> string"
  flagged_words :: "string \<rightharpoonup> flagged_config"

text \<open>
  The exceptions of discord.py that \<open>message.delete()\<close> and \<open>channel.send()\<close> raise:
  \<open>Forbidden\<close> and \<open>NotFound\<close>, which the handler catches, and any other
  \<open>HTTPException\<close>, which it does not.
\<close>

datatype dpy_error = Forbidden | NotFound | HTTPException

text \<open>
  What the handler does to the outside, in order: the request to the generative model
  (with its prompt), a line printed to the log, the deletion of the message, a message
  sent to the channel (with its \<open>delete_after\<close> when given), and the hand-over to the
  command processor.
\<close>

datatype event =
    Classify string
  | Print string
  | Delete
  | Send string "nat option"
  | ProcessCommands

text \<open>
  The answers of the outside during one run of the handler:
  \<open>generate_content\<close> maps the prompt to the text of the response (\<open>Inr\<close>), or to the
  message of the exception that \<open>model.generate_content\<close> or \<open>response.text\<close> raised
  (\<open>Inl\<close>); \<open>delete\<close> is the outcome of \<open>message.delete()\<close>; \<open>send\<close> maps the
  arguments of \<open>message.channel.send\<close> to its outcome.
\<close>

record world =
  generate_content :: "string \<Rightarrow> string + string"
  delete :: "dpy_error + unit"
  send :: "string \<Rightarrow> nat option \<Rightarrow> dpy_error + unit"


section \<open>The classification helper\<close>

definition prompt :: "string \<Rightarrow> string" where
  "prompt message_content =
     ''Determine if the following text contains clearly hateful, harassing, or violent content directed at a person or group. '' @
     ''Ignore mild profanity or non-serious insults. '' @
     ''Respond with ONLY 'yes' or 'no'. '' @
     ''Text: ```'' @ message_content @ ''```''"

text \<open>
  \<open>is_offensive_content\<close>: the events it causes and the boolean it returns. The
  \<open>except Exception\<close> clause turns every failure into a printed line and \<open>False\<close>.
\<close>

definition is_offensive_content :: "world \<Rightarrow> string \<Rightarrow> event list \<times> bool" where
  "is_offensive_content w message_content =
     (case generate_content w (prompt message_content) of
        Inr text \<Rightarrow>
          ([Classify (prompt message_content)], startswith (lower (strip text)) ''yes'')
      | Inl e \<Rightarrow>
          ([Classify (prompt message_content),
            Print (''Error checking content with Gemini: '' @ e)], False))"


section \<open>The message handler\<close>

text \<open>
  The \<open>try\<close> block of the auto-moderation branch with its two \<open>except\<close> clauses: the
  events, and \<open>Inl\<close> of the exception that leaves the block, if one does.
\<close>

definition remove_offensive :: "world \<Rightarrow> message \<Rightarrow> guild \<Rightarrow> event list \<times> (dpy_error + unit)" where
  "remove_offensive w m g =
     (let removed = author_mention m @ '' Your message was removed because it contained offensive content.'';
          undeleted = author_mention m @ '' Offensive content detected but could not delete.'';
          (body, r) = (case delete w of
                         Inl e \<Rightarrow> ([Delete], Inl e)
                       | Inr _ \<Rightarrow> ([Delete, Send removed (Some 10)], send w removed (Some 10)))
      in case r of
           Inl Forbidden \<Rightarrow>
             (body @ [Print (''Missing permissions to delete message in '' @ gname g @ ''.''),
                      Send undeleted None],
              send w undeleted None)
         | Inl NotFound \<Rightarrow> (body, Inr ())
         | Inl HTTPException \<Rightarrow> (body, Inl HTTPException)
         | Inr _ \<Rightarrow> (body, Inr ()))"

text \<open>The \<open>try\<close> block of the flagged-word branch with its two \<open>except\<close> clauses.\<close>

definition remove_flagged :: "world \<Rightarrow> string \<Rightarrow> event list \<times> (dpy_error + unit)" where
  "remove_flagged w response_message =
     (let (body, r) = (case delete w of
                         Inl e \<Rightarrow> ([Delete], Inl e)
                       | Inr _ \<Rightarrow> ([Delete, Send response_message (Some 10)],
                                   send w response_message (Some 10)))
      in case r of
           Inl Forbidden \<Rightarrow> (body @ [Send response_message None], send w response_message None)
         | Inl NotFound \<Rightarrow> (body, Inr ())
         | Inl HTTPException \<Rightarrow> (body, Inl HTTPException)
         | Inr _ \<Rightarrow> (body, Inr ()))"

text \<open>The list comprehension that collects the flagged words present in the message.\<close>

definition flagged_words_in_message :: "string list \<Rightarrow> string \<Rightarrow> string list" where
  "flagged_words_in_message ws message_content =
     filter (\<lambda>word. word \<in> set (split (lower message_content))) ws"

text \<open>
  \<open>on_message\<close>, given the bot, the dictionary \<open>auto_moderation_config\<close> and the
  answers of the outside: the events in order, and how the handler ends (\<open>Inr ()\<close>
  when it returns, \<open>Inl e\<close> when the exception \<open>e\<close> leaves it).
\<close>

definition on_message ::
  "bot \<Rightarrow> (string \<rightharpoonup> bool) \<Rightarrow> world \<Rightarrow> message \<Rightarrow> event list \<times> (dpy_error + unit)" where
  "on_message b auto_moderation_config w m =
     (case guild m of
        None \<Rightarrow> ([], Inr ())
      | Some g \<Rightarrow>
          if author_bot m \<or> author_id m \<in> blacklist b then ([], Inr ())
          else
            let guild_id = str (gid g);
                is_moderation_enabled =
                  (case auto_moderation_config guild_id of None \<Rightarrow> False | Some v \<Rightarrow> v);
                (log, offensive) =
                  (if is_moderation_enabled then is_offensive_content w (content m)
                   else ([], False))
            in
              if offensive then
                (let (acts, r) = remove_offensive w m g in (log @ acts, r))
              else
                (case flagged_words b guild_id of
                   None \<Rightarrow> (log @ [ProcessCommands], Inr ())
                 | Some config \<Rightarrow>
                     let is_global = (case sync_global config of None \<Rightarrow> False | Some v \<Rightarrow> v);
                         is_correct_channel =
                           (\<not> is_global \<and> channel config = Some (channel_id m))
                     in
                       if is_global \<or> is_correct_channel then
                         (if flagged_words_in_message
                               (case words config of None \<Rightarrow> [] | Some ws \<Rightarrow> ws) (content m) \<noteq> []
                          then
                            let custom_message =
                                  (case response config of
                                     None \<Rightarrow> ''A flagged word was detected.''
                                   | Some t \<Rightarrow> t);
                                response_message = author_mention m @ '' '' @ custom_message;
                                (acts, r) = remove_flagged w response_message
                            in (log @ acts, r)
                          else (log @ [ProcessCommands], Inr ()))
                       else (log @ [ProcessCommands], Inr ())))"


section \<open>The vocabulary of the specification\<close>

text \<open>
  The specification describes a flagged-word rule by a scope and a channel. In the
  stored entry the scope is the key \<open>sync_global\<close>: the rule is guild-wide when it is
  true, and bound to the channel under the key \<open>channel\<close> otherwise.
\<close>

datatype scope = GLOBAL | CHANNEL

definition scope_of :: "flagged_config \<Rightarrow> scope" where
  "scope_of config = (if sync_global config = Some True then GLOBAL else CHANNEL)"

text \<open>Applicability, in the words of the specification.\<close>

definition applicable :: "flagged_config \<Rightarrow> message \<Rightarrow> bool" where
  "applicable config m =
     (scope_of config = GLOBAL \<or>
      (scope_of config = CHANNEL \<and> channel config = Some (channel_id m)))"

text \<open>\<open>config.get("words", [])\<close>.\<close>

definition rule_words :: "flagged_config \<Rightarrow> string list" where
  "rule_words config = (case words config of None \<Rightarrow> [] | Some ws \<Rightarrow> ws)"

text \<open>The warning of a flagged-word rule: the mention, a space and the rule's message.\<close>

definition warning_text :: "flagged_config \<Rightarrow> message \<Rightarrow> string" where
  "warning_text config m =
     author_mention m @ '' '' @
       (case response config of None \<Rightarrow> ''A flagged word was detected.'' | Some t \<Rightarrow> t)"

text \<open>Auto-moderation is enabled for a guild: its entry is present and true.\<close>

definition enabled :: "(string \<rightharpoonup> bool) \<Rightarrow> guild \<Rightarrow> bool" where
  "enabled amc g = (amc (str (gid g)) = Some True)"

text \<open>The classification ran for the message and answered offensive.\<close>

definition classified_offensive ::
  "(string \<rightharpoonup> bool) \<Rightarrow> world \<Rightarrow> guild \<Rightarrow> message \<Rightarrow> bool" where
  "classified_offensive amc w g m =
     (enabled amc g \<and> snd (is_offensive_content w (content m)))"

text \<open>The events of the classification step: none when auto-moderation is off.\<close>

definition classification_log ::
  "(string \<rightharpoonup> bool) \<Rightarrow> world \<Rightarrow> guild \<Rightarrow> message \<Rightarrow> event list" where
  "classification_log amc w g m =
     (if enabled amc g then fst (is_offensive_content w (content m)) else [])"

text \<open>The guild's entry is \<open>config\<close>, it applies to the message and one of its words occurs.\<close>

definition rule_fires :: "bot \<Rightarrow> guild \<Rightarrow> message \<Rightarrow> flagged_config \<Rightarrow> bool" where
  "rule_fires b g m config =
     (flagged_words b (str (gid g)) = Some config \<and> applicable config m \<and>
      flagged_words_in_message (rule_words config) (content m) \<noteq> [])"

text \<open>
  A response text begins with the affirmative token, in any mix of upper and lower case.
\<close>

fun begins_with_yes :: "string \<Rightarrow> bool" where
  "begins_with_yes (a # b # c # rest) =
     ((a = CHR ''y'' \<or> a = CHR ''Y'') \<and> (b = CHR ''e'' \<or> b = CHR ''E'') \<and>
      (c = CHR ''s'' \<or> c = CHR ''S''))"
| "begins_with_yes _ = False"


section \<open>Example inputs\<close>

definition example_guild :: guild where
  "example_guild = \<lparr>gid = 42, gname = ''plastic''\<rparr>"

definition example_message :: "string \<Rightarrow> int \<Rightarrow> message" where
  "example_message text ch =
     \<lparr>guild = Some example_guild, author_bot = False, author_id = 7,
      author_mention = ''<@7>'', content = text, channel_id = ch\<rparr>"

definition example_bot :: "(string \<rightharpoonup> flagged_config) \<Rightarrow> bot" where
  "example_bot fw = \<lparr>blacklist = {13}, prefixes = Map.empty, flagged_words = fw\<rparr>"

definition example_world :: "string + string \<Rightarrow> dpy_error + unit \<Rightarrow> world" where
  "example_world answer deletion =
     \<lparr>generate_content = (\<lambda>p. answer), delete = deletion, send = (\<lambda>t d. Inr ())\<rparr>"

text \<open>A world in which the bot may neither delete nor send: both are refused.\<close>

definition locked_world :: "string + string \<Rightarrow> world" where
  "locked_world answer =
     \<lparr>generate_content = (\<lambda>p. answer), delete = Inl Forbidden, send = (\<lambda>t d. Inl Forbidden)\<rparr>"

definition banana_rule :: flagged_config where
  "banana_rule = \<lparr>sync_global = Some True, channel = None, words = Some [''banana''],
                  response = Some ''no fruit talk''\<rparr>"

definition hate_rule :: flagged_config where
  "hate_rule = \<lparr>sync_global = None, channel = Some 100, words = Some [''hate''],
                response = None\<rparr>"

section \<open>Facts about the string primitives\<close>

lemma lower_char_of: "(of_char (lower_char x) :: nat) =
   (let n = of_char x in if (65 \<le> n \<and> n \<le> 90) \<or> (192 \<le> n \<and> n \<le> 222 \<and> n \<noteq> 215) then n + 32 else n)"
  by (auto simp: lower_char_def Let_def)

lemma char_eq_nat: "(x = y) = ((of_char x :: nat) = of_char y)"
  by simp

lemma lower_char_y: "lower_char x = CHR ''y'' \<longleftrightarrow> x = CHR ''y'' \<or> x = CHR ''Y''"
  unfolding char_eq_nat[of _ "CHR ''y''"] char_eq_nat[of _ "CHR ''Y''"] lower_char_of
  by (auto simp: Let_def)

lemma lower_char_e: "lower_char x = CHR ''e'' \<longleftrightarrow> x = CHR ''e'' \<or> x = CHR ''E''"
  unfolding char_eq_nat[of _ "CHR ''e''"] char_eq_nat[of _ "CHR ''E''"] lower_char_of
  by (auto simp: Let_def)

lemma lower_char_s: "lower_char x = CHR ''s'' \<longleftrightarrow> x = CHR ''s'' \<or> x = CHR ''S''"
  unfolding char_eq_nat[of _ "CHR ''s''"] char_eq_nat[of _ "CHR ''S''"] lower_char_of
  by (auto simp: Let_def)

lemma startswith_yes: "startswith (lower s) ''yes'' = begins_with_yes s"
proof (cases s)
  case Nil
  then show ?thesis by (simp add: lower_def)
next
  case s1: (Cons a s')
  show ?thesis
  proof (cases s')
    case Nil
    with s1 show ?thesis by (simp add: lower_def)
  next
    case s2: (Cons b s'')
    show ?thesis
    proof (cases s'')
      case Nil
      with s1 s2 show ?thesis by (simp add: lower_def)
    next
      case (Cons c rest)
      with s1 s2 show ?thesis
        by (simp add: lower_def lower_char_y lower_char_e lower_char_s)
    qed
  qed
qed

lemma not_isspace_yes: "begins_with_yes s \<Longrightarrow> \<not> isspace (hd s)"
  by (cases s rule: begins_with_yes.cases) (auto simp: isspace_def)

text \<open>
  The tokens of \<open>split\<close> are the maximal runs of non-whitespace characters: a token is
  a non-empty piece of the string without whitespace that has whitespace, or an end of the
  string, on either side. The first lemma says so for a scan in progress.
\<close>

lemma split_from_mem:
  "t \<in> set (split_from cur s) \<longleftrightarrow>
     (\<exists>t' post. s = t' @ post \<and> t = cur @ t' \<and> t \<noteq> [] \<and> (\<forall>c\<in>set t'. \<not> isspace c) \<and>
        (post = [] \<or> isspace (hd post))) \<or>
     (\<exists>pre post. s = pre @ t @ post \<and> t \<noteq> [] \<and> (\<forall>c\<in>set t. \<not> isspace c) \<and>
        pre \<noteq> [] \<and> isspace (last pre) \<and> (post = [] \<or> isspace (hd post)))"
  (is "?L cur s \<longleftrightarrow> ?A cur s \<or> ?B s")
proof (induction s arbitrary: cur)
  case Nil
  then show ?case by auto
next
  case (Cons c cs)
  show ?case
  proof (cases "isspace c")
    case True
    have L: "?L cur (c # cs) \<longleftrightarrow> (t = cur \<and> cur \<noteq> []) \<or> ?L [] cs"
      using True by auto
    have A: "?A cur (c # cs) \<longleftrightarrow> (t = cur \<and> cur \<noteq> [])"
    proof
      assume "?A cur (c # cs)"
      then obtain t' post where h: "c # cs = t' @ post" "t = cur @ t'" "t \<noteq> []"
        "\<forall>c\<in>set t'. \<not> isspace c" by blast
      with True have "t' = []" by (cases t') auto
      with h show "t = cur \<and> cur \<noteq> []" by simp
    next
      assume "t = cur \<and> cur \<noteq> []"
      with True show "?A cur (c # cs)"
        by (intro exI[of _ "[]"] exI[of _ "c # cs"]) simp
    qed
    have B: "?B (c # cs) \<longleftrightarrow> ?A [] cs \<or> ?B cs"
    proof
      assume "?B (c # cs)"
      then obtain pre post where h: "c # cs = pre @ t @ post" "t \<noteq> []"
        "\<forall>c\<in>set t. \<not> isspace c" "pre \<noteq> []" "isspace (last pre)"
        "post = [] \<or> isspace (hd post)" by blast
      from h(1,4) obtain pre' where p: "pre = c # pre'" "cs = pre' @ t @ post"
        by (cases pre) auto
      show "?A [] cs \<or> ?B cs"
      proof (cases "pre' = []")
        case True
        with p h have "?A [] cs" by auto
        then show ?thesis ..
      next
        case False
        with p h have "?B cs" by auto
        then show ?thesis ..
      qed
    next
      assume "?A [] cs \<or> ?B cs"
      then show "?B (c # cs)"
      proof
        assume "?A [] cs"
        then obtain post where h: "cs = t @ post" "t \<noteq> []" "\<forall>c\<in>set t. \<not> isspace c"
          "post = [] \<or> isspace (hd post)" by auto
        with True show ?thesis
          by (intro exI[of _ "[c]"] exI[of _ post]) simp
      next
        assume "?B cs"
        then obtain pre post where h: "cs = pre @ t @ post" "t \<noteq> []"
          "\<forall>c\<in>set t. \<not> isspace c" "pre \<noteq> []" "isspace (last pre)"
          "post = [] \<or> isspace (hd post)" by blast
        then show ?thesis
          by (intro exI[of _ "c # pre"] exI[of _ post]) simp
      qed
    qed
    show ?thesis by (simp only: L A B Cons.IH[of "[]"])
  next
    case False
    have L: "?L cur (c # cs) \<longleftrightarrow> ?L (cur @ [c]) cs"
      using False by simp
    have A: "?A cur (c # cs) \<longleftrightarrow> ?A (cur @ [c]) cs"
    proof
      assume "?A cur (c # cs)"
      then obtain t' post where h: "c # cs = t' @ post" "t = cur @ t'" "t \<noteq> []"
        "\<forall>c\<in>set t'. \<not> isspace c" "post = [] \<or> isspace (hd post)" by blast
      with False obtain t'' where t': "t' = c # t''" "cs = t'' @ post"
        by (cases t') auto
      with h show "?A (cur @ [c]) cs"
        by (intro exI[of _ t''] exI[of _ post]) simp
    next
      assume "?A (cur @ [c]) cs"
      then obtain t' post where h: "cs = t' @ post" "t = (cur @ [c]) @ t'"
        "\<forall>c\<in>set t'. \<not> isspace c" "post = [] \<or> isspace (hd post)" by blast
      with False show "?A cur (c # cs)"
        by (intro exI[of _ "c # t'"] exI[of _ post]) simp
    qed
    have B: "?B (c # cs) \<longleftrightarrow> ?B cs"
    proof
      assume "?B (c # cs)"
      then obtain pre post where h: "c # cs = pre @ t @ post" "t \<noteq> []"
        "\<forall>c\<in>set t. \<not> isspace c" "pre \<noteq> []" "isspace (last pre)"
        "post = [] \<or> isspace (hd post)" by blast
      from h(1,4) obtain pre' where p: "pre = c # pre'" "cs = pre' @ t @ post"
        by (cases pre) auto
      with h False have "pre' \<noteq> []" by auto
      with p h show "?B cs"
        by (intro exI[of _ pre'] exI[of _ post]) simp
    next
      assume "?B cs"
      then obtain pre post where h: "cs = pre @ t @ post" "t \<noteq> []"
        "\<forall>c\<in>set t. \<not> isspace c" "pre \<noteq> []" "isspace (last pre)"
        "post = [] \<or> isspace (hd post)" by blast
      then show "?B (c # cs)"
        by (intro exI[of _ "c # pre"] exI[of _ post]) simp
    qed
    show ?thesis by (simp only: L A B Cons.IH[of "cur @ [c]"])
  qed
qed

lemma split_mem:
  "t \<in> set (split s) \<longleftrightarrow>
     (\<exists>pre post. s = pre @ t @ post \<and> t \<noteq> [] \<and> (\<forall>c\<in>set t. \<not> isspace c) \<and>
        (pre = [] \<or> isspace (last pre)) \<and> (post = [] \<or> isspace (hd post)))"
  (is "_ \<longleftrightarrow> ?R")
proof
  assume "t \<in> set (split s)"
  then consider
    (first) post where "s = t @ post" "t \<noteq> []" "\<forall>c\<in>set t. \<not> isspace c"
      "post = [] \<or> isspace (hd post)"
  | (later) pre post where "s = pre @ t @ post" "t \<noteq> []" "\<forall>c\<in>set t. \<not> isspace c"
      "pre \<noteq> []" "isspace (last pre)" "post = [] \<or> isspace (hd post)"
    unfolding split_def split_from_mem[of t "[]" s] by auto
  then show ?R
  proof cases
    case first
    then show ?thesis by (intro exI[of _ "[]"] exI[of _ post]) simp
  next
    case later
    then show ?thesis by (intro exI[of _ pre] exI[of _ post]) simp
  qed
next
  assume ?R
  then obtain pre post where h: "s = pre @ t @ post" "t \<noteq> []" "\<forall>c\<in>set t. \<not> isspace c"
    "pre = [] \<or> isspace (last pre)" "post = [] \<or> isspace (hd post)" by blast
  show "t \<in> set (split s)"
  proof (cases "pre = []")
    case True
    with h have "\<exists>t' post. s = t' @ post \<and> t = [] @ t' \<and> t \<noteq> [] \<and>
        (\<forall>c\<in>set t'. \<not> isspace c) \<and> (post = [] \<or> isspace (hd post))"
      by (intro exI[of _ t] exI[of _ post]) simp
    then show ?thesis unfolding split_def split_from_mem[of t "[]" s] ..
  next
    case False
    with h have "\<exists>pre post. s = pre @ t @ post \<and> t \<noteq> [] \<and> (\<forall>c\<in>set t. \<not> isspace c) \<and>
        pre \<noteq> [] \<and> isspace (last pre) \<and> (post = [] \<or> isspace (hd post))"
      by (intro exI[of _ pre] exI[of _ post]) simp
    then show ?thesis unfolding split_def split_from_mem[of t "[]" s] ..
  qed
qed

text \<open>
  \<open>strip\<close> removes the whitespace in front and leaves, of what follows, all but the
  whitespace at the end.
\<close>

lemma strip_prefix: "\<exists>trail. dropWhile isspace s = strip s @ trail \<and> (\<forall>c\<in>set trail. isspace c)"
proof -
  let ?d = "dropWhile isspace s"
  have "rev ?d = takeWhile isspace (rev ?d) @ dropWhile isspace (rev ?d)" by simp
  then have "?d = rev (dropWhile isspace (rev ?d)) @ rev (takeWhile isspace (rev ?d))"
    by (metis rev_append rev_rev_ident)
  moreover have "\<forall>c\<in>set (rev (takeWhile isspace (rev ?d))). isspace c"
    by (auto dest: set_takeWhileD)
  ultimately show ?thesis unfolding strip_def by blast
qed

lemma begins_with_yes_append: "begins_with_yes s \<Longrightarrow> begins_with_yes (s @ trail)"
  by (cases s rule: begins_with_yes.cases) simp_all

lemma begins_with_yes_strip: "begins_with_yes (strip s) = begins_with_yes (dropWhile isspace s)"
proof
  assume "begins_with_yes (strip s)"
  with strip_prefix[of s] show "begins_with_yes (dropWhile isspace s)"
    by (auto simp: begins_with_yes_append)
next
  assume y: "begins_with_yes (dropWhile isspace s)"
  then obtain a b c rest where d: "dropWhile isspace s = a # b # c # rest"
    by (cases "dropWhile isspace s" rule: begins_with_yes.cases) simp_all
  with y have ns: "\<not> isspace c"
    by (auto simp: isspace_def)
  have "dropWhile isspace (rev rest @ [c, b, a]) =
      (if \<forall>x\<in>set (rev rest). isspace x then [c, b, a] else dropWhile isspace (rev rest) @ [c, b, a])"
    using ns by (simp add: dropWhile_append)
  then obtain zs where "dropWhile isspace (rev rest @ [c, b, a]) = zs @ [c, b, a]"
    by (metis append_Nil)
  then have "strip s = a # b # c # rev zs"
    by (simp add: strip_def d)
  with y d show "begins_with_yes (strip s)" by simp
qed

section \<open>Facts about the handler\<close>

lemma applicable_iff:
  "applicable config m =
     ((case sync_global config of None \<Rightarrow> False | Some v \<Rightarrow> v) \<or>
      (\<not> (case sync_global config of None \<Rightarrow> False | Some v \<Rightarrow> v) \<and> channel config = Some (channel_id m)))"
  by (auto simp: applicable_def scope_of_def split: option.splits)

lemma on_message_passed:
  assumes "guild m = Some g" "\<not> author_bot m" "author_id m \<notin> blacklist b"
  shows "on_message b amc w m =
     (if classified_offensive amc w g m then
        (classification_log amc w g m @ fst (remove_offensive w m g), snd (remove_offensive w m g))
      else case flagged_words b (str (gid g)) of
        None \<Rightarrow> (classification_log amc w g m @ [ProcessCommands], Inr ())
      | Some config \<Rightarrow>
          if applicable config m \<and> flagged_words_in_message (rule_words config) (content m) \<noteq> []
          then (classification_log amc w g m @ fst (remove_flagged w (warning_text config m)),
                snd (remove_flagged w (warning_text config m)))
          else (classification_log amc w g m @ [ProcessCommands], Inr ()))"
proof (cases "amc (str (gid g))")
  case None
  with assms show ?thesis
    by (simp add: on_message_def Let_def classified_offensive_def classification_log_def enabled_def
        applicable_iff rule_words_def warning_text_def split: option.splits prod.splits)
next
  case (Some v)
  obtain l off where io: "is_offensive_content w (content m) = (l, off)"
    by (cases "is_offensive_content w (content m)")
  from assms Some io show ?thesis
    by (cases v; cases off)
       (simp_all add: on_message_def Let_def classified_offensive_def classification_log_def enabled_def
        applicable_iff rule_words_def warning_text_def split: option.splits prod.splits)
qed

lemma classification_log_events:
  "set (classification_log amc w g m) \<subseteq> insert (Classify (prompt (content m))) (range Print)"
  by (auto simp: classification_log_def is_offensive_content_def split: sum.splits)

lemma remove_offensive_Delete: "\<exists>rest. fst (remove_offensive w m g) = Delete # rest"
  by (auto simp: remove_offensive_def Let_def split: sum.splits dpy_error.splits prod.splits)

lemma remove_offensive_no_commands: "ProcessCommands \<notin> set (fst (remove_offensive w m g))"
  by (auto simp: remove_offensive_def Let_def split: sum.splits dpy_error.splits prod.splits)

lemma remove_flagged_Delete: "\<exists>rest. fst (remove_flagged w t) = Delete # rest"
  by (auto simp: remove_flagged_def Let_def split: sum.splits dpy_error.splits prod.splits)

lemma remove_flagged_no_commands: "ProcessCommands \<notin> set (fst (remove_flagged w t))"
  by (auto simp: remove_flagged_def Let_def split: sum.splits dpy_error.splits prod.splits)

lemma classification_log_no_Delete: "Delete \<notin> set (classification_log amc w g m)"
  using classification_log_events[of amc w g m] by auto

lemma classification_log_no_commands: "ProcessCommands \<notin> set (classification_log amc w g m)"
  using classification_log_events[of amc w g m] by auto

lemma remove_offensive_cong:
  "delete w' = delete w \<Longrightarrow> send w' = send w \<Longrightarrow> remove_offensive w' m g = remove_offensive w m g"
  by (simp add: remove_offensive_def Let_def
      cong: sum.case_cong prod.case_cong dpy_error.case_cong)

lemma remove_flagged_cong:
  "delete w' = delete w \<Longrightarrow> send w' = send w \<Longrightarrow> remove_flagged w' t = remove_flagged w t"
  by (simp add: remove_flagged_def cong: sum.case_cong prod.case_cong dpy_error.case_cong)

lemma remove_flagged_no_Print: "Print t \<notin> set (fst (remove_flagged w r))"
  by (auto simp: remove_flagged_def Let_def split: sum.splits dpy_error.splits prod.splits)

lemma str_42: "str 42 = ''42''"
  by code_simp

section \<open>Facts about the example inputs\<close>

lemma example_passes:
  "guild (example_message text ch) = Some example_guild"
  "\<not> author_bot (example_message text ch)"
  "author_id (example_message text ch) \<notin> blacklist (example_bot fw)"
  by (simp_all add: example_message_def example_bot_def)

lemma example_key: "str (gid example_guild) = ''42''"
  by (simp add: example_guild_def str_42)

lemma yes_answer: "startswith (lower (strip '' Yes.'')) ''yes''"
  by code_simp

lemma no_answer: "\<not> startswith (lower (strip ''no'')) ''yes''"
  by code_simp

lemma example_classification:
  "is_offensive_content (example_world (Inr '' Yes.'') d) text = ([Classify (prompt text)], True)"
  "is_offensive_content (example_world (Inr ''no'') d) text = ([Classify (prompt text)], False)"
  "is_offensive_content (example_world (Inl e) d) text =
     ([Classify (prompt text), Print (''Error checking content with Gemini: '' @ e)], False)"
  by (simp_all add: is_offensive_content_def example_world_def yes_answer no_answer)

lemma example_fields:
  "content (example_message text ch) = text"
  "channel_id (example_message text ch) = ch"
  "author_mention (example_message text ch) = ''<@7>''"
  "gname example_guild = ''plastic''"
  "delete (example_world a d) = d"
  "send (example_world a d) t n = Inr ()"
  "generate_content (example_world a d) p = a"
  "flagged_words (example_bot fw) = fw"
  by (simp_all add: example_message_def example_guild_def example_world_def example_bot_def)

lemma example_enabled:
  "enabled [''42'' \<mapsto> True] example_guild"
  "\<not> enabled Map.empty example_guild"
  by (simp_all add: enabled_def example_key)

lemma example_matches:
  "flagged_words_in_message [''banana''] ''I love banana bread'' = [''banana'']"
  "flagged_words_in_message [''banana''] ''hello there'' = []"
  "flagged_words_in_message [''hate''] ''I HATE you'' = [''hate'']"
  "flagged_words_in_message [''hate''] ''hateful'' = []"
  by code_simp+

lemma example_rules:
  "applicable banana_rule m"
  "rule_words banana_rule = [''banana'']"
  "warning_text banana_rule (example_message text ch) = ''<@7> no fruit talk''"
  "applicable hate_rule (example_message text ch) = (ch = 100)"
  "rule_words hate_rule = [''hate'']"
  "warning_text hate_rule (example_message text ch) = ''<@7> A flagged word was detected.''"
  "scope_of banana_rule = GLOBAL"
  "scope_of hate_rule = CHANNEL"
  "channel hate_rule = Some 100"
  by (auto simp: applicable_def scope_of_def rule_words_def warning_text_def banana_rule_def
      hate_rule_def example_message_def)

lemmas example_run = on_message_passed[OF example_passes]

lemma example_removals:
  "remove_flagged (example_world a (Inr ())) t = ([Delete, Send t (Some 10)], Inr ())"
  "remove_flagged (example_world a (Inl Forbidden)) t = ([Delete, Send t None], Inr ())"
  "remove_flagged (example_world a (Inl NotFound)) t = ([Delete], Inr ())"
  by (simp_all add: remove_flagged_def example_world_def)

lemma example_removals_offensive:
  "remove_offensive (example_world a (Inl Forbidden)) (example_message text ch) example_guild =
     ([Delete, Print ''Missing permissions to delete message in plastic.'',
       Send ''<@7> Offensive content detected but could not delete.'' None], Inr ())"
  "remove_offensive (example_world a (Inl NotFound)) (example_message text ch) example_guild =
     ([Delete], Inr ())"
  by (simp_all add: remove_offensive_def example_world_def example_message_def example_guild_def)

lemma locked_world_fields:
  "delete (locked_world a) = Inl Forbidden"
  "send (locked_world a) t n = Inl Forbidden"
  "generate_content (locked_world a) p = a"
  by (simp_all add: locked_world_def)

lemma locked_world_classification:
  "is_offensive_content (locked_world (Inr '' Yes.'')) text = ([Classify (prompt text)], True)"
  "is_offensive_content (locked_world (Inr ''no'')) text = ([Classify (prompt text)], False)"
  by (simp_all add: is_offensive_content_def locked_world_def yes_answer no_answer)

lemma locked_world_removals:
  "remove_flagged (locked_world a) t = ([Delete, Send t None], Inl Forbidden)"
  "remove_offensive (locked_world a) (example_message text ch) example_guild =
     ([Delete, Print ''Missing permissions to delete message in plastic.'',
       Send ''<@7> Offensive content detected but could not delete.'' None], Inl Forbidden)"
  by (simp_all add: remove_flagged_def remove_offensive_def locked_world_def
      example_message_def example_guild_def)

section \<open>The claims\<close>

text \<open>
  Claim C1. When a message passes the fast-reject step in a guild with auto-moderation
  enabled and the classification answers offensive, the handler does the classification
  followed by the removal of the auto-moderation branch, and nothing else: the deletion
  comes first, the warning sent after a successful deletion is the mention with the
  offensive-content notice, the command processor is not reached, and the result is the
  same for every table of flagged-word entries \<open>fw\<close>.
\<close>

theorem offensive_short_circuit:
  assumes "guild m = Some g" "\<not> author_bot m" "author_id m \<notin> blacklist b"
    and "enabled amc g" and "snd (is_offensive_content w (content m))"
  shows "on_message (b\<lparr>flagged_words := fw\<rparr>) amc w m =
           (fst (is_offensive_content w (content m)) @ fst (remove_offensive w m g),
            snd (remove_offensive w m g)) \<and>
         (\<exists>rest. fst (remove_offensive w m g) = Delete # rest) \<and>
         (delete w = Inr () \<longrightarrow>
            take 2 (fst (remove_offensive w m g)) =
              [Delete, Send (author_mention m @ '' Your message was removed because it contained offensive content.'') (Some 10)]) \<and>
         ProcessCommands \<notin> set (fst (on_message (b\<lparr>flagged_words := fw\<rparr>) amc w m))"
proof -
  have eq: "on_message (b\<lparr>flagged_words := fw\<rparr>) amc w m =
           (fst (is_offensive_content w (content m)) @ fst (remove_offensive w m g),
            snd (remove_offensive w m g))"
    using assms by (simp add: on_message_passed classified_offensive_def classification_log_def)
  have sent: "delete w = Inr () \<longrightarrow>
            take 2 (fst (remove_offensive w m g)) =
              [Delete, Send (author_mention m @ '' Your message was removed because it contained offensive content.'') (Some 10)]"
    by (auto simp: remove_offensive_def Let_def split: sum.splits dpy_error.splits prod.splits)
  have "ProcessCommands \<notin> set (fst (is_offensive_content w (content m)))"
    by (auto simp: is_offensive_content_def split: sum.splits)
  with eq remove_offensive_no_commands[of w m g] remove_offensive_Delete[of w m g] sent
  show ?thesis by simp
qed

theorem offensive_short_circuit_witness:
  "on_message (example_bot [''42'' \<mapsto> banana_rule]) [''42'' \<mapsto> True]
     (example_world (Inr '' Yes.'') (Inr ())) (example_message ''worthless banana'' 100) =
   ([Classify (prompt ''worthless banana''), Delete,
     Send ''<@7> Your message was removed because it contained offensive content.'' (Some 10)],
    Inr ())"
proof -
  let ?w = "example_world (Inr '' Yes.'') (Inr ())"
  let ?m = "example_message ''worthless banana'' 100"
  have en: "enabled [''42'' \<mapsto> True] example_guild"
    by (simp add: enabled_def example_key)
  have off: "snd (is_offensive_content ?w (content ?m))"
    by (simp add: example_classification)
  have rm: "remove_offensive ?w ?m example_guild =
      ([Delete, Send ''<@7> Your message was removed because it contained offensive content.'' (Some 10)],
       Inr ())"
    by (simp add: remove_offensive_def example_world_def example_message_def)
  have b: "example_bot [''42'' \<mapsto> banana_rule] = (example_bot Map.empty)\<lparr>flagged_words := [''42'' \<mapsto> banana_rule]\<rparr>"
    by (simp add: example_bot_def)
  from offensive_short_circuit[where m = ?m and g = example_guild and b = "example_bot Map.empty"
      and amc = "[''42'' \<mapsto> True]" and w = ?w and fw = "[''42'' \<mapsto> banana_rule]",
      OF example_passes en off]
  show ?thesis
    unfolding b by (simp add: rm example_classification) (simp add: example_message_def)
qed

text \<open>
  Claim C2. When the classification call fails, the helper returns \<open>False\<close>, and the
  handler ends as it does in a world that differs only in that the classifier answers
  with a text that is not affirmative: the same outcome, and the same events once the
  printed failure line is taken out. The failure reaches nobody but the log.
\<close>

theorem classification_failure_as_clean:
  assumes "generate_content w (prompt (content m)) = Inl e"
    and "generate_content w' (prompt (content m)) = Inr text"
    and "\<not> startswith (lower (strip text)) ''yes''"
    and "delete w' = delete w" and "send w' = send w"
  shows "snd (is_offensive_content w (content m)) = False \<and>
         snd (on_message b amc w m) = snd (on_message b amc w' m) \<and>
         remove1 (Print (''Error checking content with Gemini: '' @ e)) (fst (on_message b amc w m)) =
           fst (on_message b amc w' m)"
proof -
  let ?err = "Print (''Error checking content with Gemini: '' @ e)"
  let ?c = "Classify (prompt (content m))"
  have w: "is_offensive_content w (content m) = ([?c, ?err], False)"
    using assms(1) by (simp add: is_offensive_content_def)
  have w': "is_offensive_content w' (content m) = ([?c], False)"
    using assms(2,3) by (simp add: is_offensive_content_def)
  show ?thesis
  proof (cases "\<exists>g. guild m = Some g \<and> \<not> author_bot m \<and> author_id m \<notin> blacklist b")
    case False
    then have "on_message b amc w m = ([], Inr ())" "on_message b amc w' m = ([], Inr ())"
      by (auto simp: on_message_def split: option.splits)
    with w show ?thesis by simp
  next
    case True
    then obtain g where g: "guild m = Some g" "\<not> author_bot m" "author_id m \<notin> blacklist b"
      by blast
    have no: "\<not> classified_offensive amc w g m" "\<not> classified_offensive amc w' g m"
      using w w' by (simp_all add: classified_offensive_def)
    have log: "remove1 ?err (classification_log amc w g m) = classification_log amc w' g m"
      "?err \<notin> set (classification_log amc w' g m)"
      using w w' by (simp_all add: classification_log_def)
    have rm: "\<And>xs ys. ?err \<notin> set ys \<Longrightarrow>
        remove1 ?err (classification_log amc w g m @ ys) = classification_log amc w' g m @ ys"
      using w w' by (simp add: classification_log_def remove1_idem)
    have fl: "\<And>t. remove_flagged w' t = remove_flagged w t"
      using assms(4,5) by (rule remove_flagged_cong)
    show ?thesis
    proof (cases "flagged_words b (str (gid g))")
      case None
      with g no w rm[of "[ProcessCommands]"] show ?thesis
        by (simp add: on_message_passed)
    next
      case (Some config)
      with g no w rm[of "[ProcessCommands]"] rm[OF remove_flagged_no_Print, of w "warning_text config m"] fl
      show ?thesis
        by (simp add: on_message_passed)
    qed
  qed
qed

theorem classification_failure_as_clean_witness:
  "snd (on_message (example_bot [''42'' \<mapsto> banana_rule]) [''42'' \<mapsto> True]
          (example_world (Inl ''timeout'') (Inr ())) (example_message ''I love banana bread'' 100)) = Inr () \<and>
   remove1 (Print ''Error checking content with Gemini: timeout'')
     (fst (on_message (example_bot [''42'' \<mapsto> banana_rule]) [''42'' \<mapsto> True]
          (example_world (Inl ''timeout'') (Inr ())) (example_message ''I love banana bread'' 100))) =
     [Classify (prompt ''I love banana bread''), Delete, Send ''<@7> no fruit talk'' (Some 10)]"
proof -
  let ?b = "example_bot [''42'' \<mapsto> banana_rule]"
  let ?amc = "[''42'' \<mapsto> True]"
  let ?m = "example_message ''I love banana bread'' 100"
  let ?w = "example_world (Inl ''timeout'') (Inr ())"
  let ?w' = "example_world (Inr ''no'') (Inr ())"
  have clean: "on_message ?b ?amc ?w' ?m =
      ([Classify (prompt ''I love banana bread''), Delete, Send ''<@7> no fruit talk'' (Some 10)], Inr ())"
    by (simp add: example_run classified_offensive_def classification_log_def example_enabled
        example_fields example_classification example_key example_rules example_matches
        example_removals)
  have h1: "generate_content ?w (prompt (content ?m)) = Inl ''timeout''"
    and h2: "generate_content ?w' (prompt (content ?m)) = Inr ''no''"
    and h4: "delete ?w' = delete ?w" and h5: "send ?w' = send ?w"
    by (simp_all add: example_world_def)
  from classification_failure_as_clean[OF h1 h2 no_answer h4 h5, of ?b ?amc] clean
  show ?thesis by simp
qed

text \<open>
  Claim C3. A message from a bot, without a guild, or from a blacklisted author makes
  the handler return at once: no event happens, so the classification is not called.
\<close>

theorem fast_reject_no_action:
  "author_bot m \<or> guild m = None \<or> author_id m \<in> blacklist b \<Longrightarrow>
     on_message b amc w m = ([], Inr ()) \<and> (\<forall>p. Classify p \<notin> set (fst (on_message b amc w m)))"
  by (auto simp: on_message_def split: option.splits)

theorem fast_reject_no_action_witness:
  "on_message (example_bot Map.empty) [''42'' \<mapsto> True] (example_world (Inr '' Yes.'') (Inr ()))
     ((example_message ''worthless'' 100)\<lparr>author_bot := True\<rparr>) = ([], Inr ()) \<and>
   on_message (example_bot Map.empty) [''42'' \<mapsto> True] (example_world (Inr '' Yes.'') (Inr ()))
     ((example_message ''worthless'' 100)\<lparr>guild := None\<rparr>) = ([], Inr ()) \<and>
   on_message (example_bot Map.empty) [''42'' \<mapsto> True] (example_world (Inr '' Yes.'') (Inr ()))
     ((example_message ''worthless'' 100)\<lparr>author_id := 13\<rparr>) = ([], Inr ())"
proof -
  let ?m = "example_message ''worthless'' 100"
  let ?b = "example_bot Map.empty"
  have 1: "author_bot (?m\<lparr>author_bot := True\<rparr>) \<or> guild (?m\<lparr>author_bot := True\<rparr>) = None \<or>
      author_id (?m\<lparr>author_bot := True\<rparr>) \<in> blacklist ?b"
    by simp
  have 2: "author_bot (?m\<lparr>guild := None\<rparr>) \<or> guild (?m\<lparr>guild := None\<rparr>) = None \<or>
      author_id (?m\<lparr>guild := None\<rparr>) \<in> blacklist ?b"
    by simp
  have 3: "author_bot (?m\<lparr>author_id := 13\<rparr>) \<or> guild (?m\<lparr>author_id := 13\<rparr>) = None \<or>
      author_id (?m\<lparr>author_id := 13\<rparr>) \<in> blacklist ?b"
    by (simp add: example_bot_def)
  from fast_reject_no_action[OF 1] fast_reject_no_action[OF 2] fast_reject_no_action[OF 3]
  show ?thesis by blast
qed

text \<open>
  Claim C4. The flagged words found in a message are not empty exactly when some token
  of the lower-cased content, split at whitespace, equals a word of the rule, where the
  tokens of a string are its maximal runs of non-whitespace characters. The word hate is
  found in "I HATE you" and not in "hateful".
\<close>

theorem flagged_word_token_equality:
  "(flagged_words_in_message ws message_content \<noteq> []) =
      (\<exists>token. token \<in> set (split (lower message_content)) \<and> token \<in> set ws) \<and>
   (t \<in> set (split s) \<longleftrightarrow>
      (\<exists>pre post. s = pre @ t @ post \<and> t \<noteq> [] \<and> (\<forall>c\<in>set t. \<not> isspace c) \<and>
         (pre = [] \<or> isspace (last pre)) \<and> (post = [] \<or> isspace (hd post)))) \<and>
   flagged_words_in_message [''hate''] ''I HATE you'' = [''hate''] \<and>
   flagged_words_in_message [''hate''] ''hateful'' = []"
proof -
  have "(flagged_words_in_message ws message_content \<noteq> []) =
      (\<exists>token. token \<in> set (split (lower message_content)) \<and> token \<in> set ws)"
    by (auto simp: flagged_words_in_message_def filter_empty_conv)
  with split_mem[of t s] example_matches(3,4) show ?thesis
    by (simp only: simp_thms)
qed

theorem flagged_word_token_equality_witness:
  "(\<exists>token. token \<in> set (split (lower ''I HATE you'')) \<and> token \<in> set [''hate'']) \<and>
   (\<exists>pre post. ''i hate you'' = pre @ ''hate'' @ post \<and>
      (pre = [] \<or> isspace (last pre)) \<and> (post = [] \<or> isspace (hd post))) \<and>
   ''hate'' \<notin> set (split ''hateful'')"
proof -
  have tokens: "split ''i hate you'' = [''i'', ''hate'', ''you'']" "split ''hateful'' = [''hateful'']"
    by code_simp+
  from flagged_word_token_equality[of "[''hate'']" "''I HATE you''" "''hate''" "''i hate you''"]
    flagged_word_token_equality[of "[''hate'']" "''I HATE you''" "''hate''" "''hateful''"]
  show ?thesis
    by (simp add: tokens) blast
qed

text \<open>
  Claim C5. For a message that passes the fast-reject step and is not removed by
  auto-moderation, the guild's rule removes the message exactly when it is applicable
  (global, or bound to the channel of the message) and one of its words occurs. A rule
  bound to another channel leaves the message to the command processor, and under a
  global rule the handler does the same whatever the channel of the message.
\<close>

theorem flagged_rule_scope:
  assumes "guild m = Some g" "\<not> author_bot m" "author_id m \<notin> blacklist b"
    and "flagged_words b (str (gid g)) = Some config"
    and "\<not> classified_offensive amc w g m"
  shows "(Delete \<in> set (fst (on_message b amc w m)) \<longleftrightarrow>
            applicable config m \<and> flagged_words_in_message (rule_words config) (content m) \<noteq> []) \<and>
         (scope_of config = CHANNEL \<and> channel config = Some c1 \<and> channel_id m \<noteq> c1 \<longrightarrow>
            on_message b amc w m = (classification_log amc w g m @ [ProcessCommands], Inr ())) \<and>
         (scope_of config = GLOBAL \<longrightarrow>
            on_message b amc w (m\<lparr>channel_id := c2\<rparr>) = on_message b amc w m)"
proof -
  note facts = classification_log_no_Delete[of amc w g m]
    remove_flagged_Delete[of w "warning_text config m"]
  have 1: "Delete \<in> set (fst (on_message b amc w m)) \<longleftrightarrow>
            applicable config m \<and> flagged_words_in_message (rule_words config) (content m) \<noteq> []"
    using assms facts by (auto simp: on_message_passed)
  have 2: "scope_of config = CHANNEL \<and> channel config = Some c1 \<and> channel_id m \<noteq> c1 \<longrightarrow>
            on_message b amc w m = (classification_log amc w g m @ [ProcessCommands], Inr ())"
    using assms by (auto simp: on_message_passed applicable_def)
  have m': "guild (m\<lparr>channel_id := c2\<rparr>) = Some g" "\<not> author_bot (m\<lparr>channel_id := c2\<rparr>)"
    "author_id (m\<lparr>channel_id := c2\<rparr>) \<notin> blacklist b"
    using assms by simp_all
  have 3: "scope_of config = GLOBAL \<longrightarrow>
            on_message b amc w (m\<lparr>channel_id := c2\<rparr>) = on_message b amc w m"
    using assms
    by (simp add: on_message_passed[OF m'] on_message_passed[OF assms(1-3)]
        classified_offensive_def classification_log_def applicable_def warning_text_def)
  from 1 2 3 show ?thesis by blast
qed

theorem flagged_rule_scope_witness:
  "Delete \<in> set (fst (on_message (example_bot [''42'' \<mapsto> hate_rule]) Map.empty
       (example_world (Inr ''no'') (Inr ())) (example_message ''I HATE you'' 100))) \<and>
   on_message (example_bot [''42'' \<mapsto> hate_rule]) Map.empty
       (example_world (Inr ''no'') (Inr ())) (example_message ''I HATE you'' 101) =
     ([ProcessCommands], Inr ()) \<and>
   on_message (example_bot [''42'' \<mapsto> banana_rule]) Map.empty
       (example_world (Inr ''no'') (Inr ())) ((example_message ''I love banana bread'' 100)\<lparr>channel_id := 5\<rparr>) =
     on_message (example_bot [''42'' \<mapsto> banana_rule]) Map.empty
       (example_world (Inr ''no'') (Inr ())) (example_message ''I love banana bread'' 100)"
proof -
  let ?w = "example_world (Inr ''no'') (Inr ())"
  have hate: "flagged_words (example_bot [''42'' \<mapsto> hate_rule]) (str (gid example_guild)) = Some hate_rule"
    and banana: "flagged_words (example_bot [''42'' \<mapsto> banana_rule]) (str (gid example_guild)) = Some banana_rule"
    by (simp_all add: example_fields example_key)
  have clean: "\<And>m. \<not> classified_offensive Map.empty ?w example_guild m"
    by (simp add: classified_offensive_def example_enabled)
  have log: "\<And>m. classification_log Map.empty ?w example_guild m = []"
    by (simp add: classification_log_def example_enabled)
  from flagged_rule_scope[where m = "example_message ''I HATE you'' 100" and w = ?w,
      OF example_passes hate clean]
  have 1: "Delete \<in> set (fst (on_message (example_bot [''42'' \<mapsto> hate_rule]) Map.empty ?w
       (example_message ''I HATE you'' 100)))"
    by (simp add: example_rules example_matches example_fields)
  from flagged_rule_scope[where m = "example_message ''I HATE you'' 101" and w = ?w
      and ?c1.0 = 100, OF example_passes hate clean]
  have 2: "on_message (example_bot [''42'' \<mapsto> hate_rule]) Map.empty ?w
       (example_message ''I HATE you'' 101) = ([ProcessCommands], Inr ())"
    by (simp add: example_rules example_fields log)
  from flagged_rule_scope[where m = "example_message ''I love banana bread'' 100" and w = ?w
      and ?c2.0 = 5, OF example_passes banana clean]
  have 3: "on_message (example_bot [''42'' \<mapsto> banana_rule]) Map.empty ?w
       ((example_message ''I love banana bread'' 100)\<lparr>channel_id := 5\<rparr>) =
     on_message (example_bot [''42'' \<mapsto> banana_rule]) Map.empty ?w
       (example_message ''I love banana bread'' 100)"
    by (simp add: example_rules)
  from 1 2 3 show ?thesis by blast
qed

text \<open>
  Claim C6. The helper answers true exactly when the call returned a text that, once
  stripped of surrounding whitespace, begins with yes in any mix of cases. Every other
  text, and every failure of the call, gives false. Stripping matters only in front: the
  test on the stripped text is the test on the text without its leading whitespace.
\<close>

theorem classification_affirmative_prefix:
  "snd (is_offensive_content w message_content) =
     (case generate_content w (prompt message_content) of
        Inl e \<Rightarrow> False
      | Inr text \<Rightarrow> begins_with_yes (strip text)) \<and>
   begins_with_yes (strip text) = begins_with_yes (dropWhile isspace text)"
  by (simp add: is_offensive_content_def startswith_yes begins_with_yes_strip split: sum.splits)

text \<open>
  Claim C7. When auto-moderation is off for the guild (its entry false or absent) and
  no flagged-word rule fires, a message that passes the fast-reject step is only handed
  to the command processor: nothing is deleted and nothing is sent.
\<close>

theorem unmatched_is_no_action:
  assumes "guild m = Some g" "\<not> author_bot m" "author_id m \<notin> blacklist b"
    and "amc (str (gid g)) = None \<or> amc (str (gid g)) = Some False"
    and "\<forall>config. \<not> rule_fires b g m config"
  shows "on_message b amc w m = ([ProcessCommands], Inr ())"
  using assms
  by (auto simp: on_message_passed classified_offensive_def classification_log_def enabled_def
      rule_fires_def split: option.splits)

theorem unmatched_is_no_action_witness:
  "on_message (example_bot [''42'' \<mapsto> hate_rule]) Map.empty
     (example_world (Inr '' Yes.'') (Inr ())) (example_message ''hateful'' 100) =
   ([ProcessCommands], Inr ())"
proof -
  let ?b = "example_bot [''42'' \<mapsto> hate_rule]"
  let ?m = "example_message ''hateful'' 100"
  have off: "Map.empty (str (gid example_guild)) = None \<or>
      Map.empty (str (gid example_guild)) = Some False"
    by simp
  have none: "\<forall>config. \<not> rule_fires ?b example_guild ?m config"
    by (auto simp: rule_fires_def example_fields example_key example_rules example_matches)
  from unmatched_is_no_action[OF example_passes off none]
  show ?thesis .
qed

text \<open>
  Claim C8, amended. The claim says that a failed deletion never propagates. That holds
  for \<open>NotFound\<close>, and for \<open>Forbidden\<close> as far as the deletion's own exception goes,
  but the notice is sent from inside the \<open>except Forbidden\<close> clause with nothing
  around it: when that send is refused too, its exception leaves the handler. What
  holds is this. When the deletion is refused (\<open>Forbidden\<close>), the auto-moderation branch
  logs it and sends the mention with "Offensive content detected but could not delete.",
  and the flagged-word branch sends its warning again without \<open>delete_after\<close>; the
  handler then ends exactly as that send does: it returns normally when the send
  succeeds, and otherwise the exception of the send leaves it. When the message is
  already gone (\<open>NotFound\<close>), both branches stop after the deletion attempt, send
  nothing and return normally.
\<close>

theorem delete_failures_handled:
  assumes "guild m = Some g" "\<not> author_bot m" "author_id m \<notin> blacklist b"
  shows "(classified_offensive amc w g m \<and> delete w = Inl Forbidden \<longrightarrow>
            on_message b amc w m =
              (classification_log amc w g m @
                 [Delete,
                  Print (''Missing permissions to delete message in '' @ gname g @ ''.''),
                  Send (author_mention m @ '' Offensive content detected but could not delete.'') None],
               send w (author_mention m @ '' Offensive content detected but could not delete.'') None)) \<and>
         (\<not> classified_offensive amc w g m \<and> rule_fires b g m config \<and> delete w = Inl Forbidden \<longrightarrow>
            on_message b amc w m =
              (classification_log amc w g m @ [Delete, Send (warning_text config m) None],
               send w (warning_text config m) None)) \<and>
         ((classified_offensive amc w g m \<or> rule_fires b g m config) \<and> delete w = Inl NotFound \<longrightarrow>
            on_message b amc w m = (classification_log amc w g m @ [Delete], Inr ())) \<and>
         (classified_offensive amc w g m \<and> delete w = Inl Forbidden \<longrightarrow>
            (snd (on_message b amc w m) = Inr ()) =
              (send w (author_mention m @ '' Offensive content detected but could not delete.'') None = Inr ())) \<and>
         (\<not> classified_offensive amc w g m \<and> rule_fires b g m config \<and> delete w = Inl Forbidden \<longrightarrow>
            (snd (on_message b amc w m) = Inr ()) = (send w (warning_text config m) None = Inr ()))"
proof -
  have "delete w = Inl Forbidden \<longrightarrow> remove_offensive w m g =
      ([Delete,
        Print (''Missing permissions to delete message in '' @ gname g @ ''.''),
        Send (author_mention m @ '' Offensive content detected but could not delete.'') None],
       send w (author_mention m @ '' Offensive content detected but could not delete.'') None)"
    by (simp add: remove_offensive_def Let_def)
  moreover have "delete w = Inl NotFound \<longrightarrow> remove_offensive w m g = ([Delete], Inr ())"
    by (simp add: remove_offensive_def Let_def)
  moreover have "\<And>t. delete w = Inl Forbidden \<longrightarrow> remove_flagged w t =
      ([Delete, Send t None], send w t None)"
    by (simp add: remove_flagged_def)
  moreover have "\<And>t. delete w = Inl NotFound \<longrightarrow> remove_flagged w t = ([Delete], Inr ())"
    by (simp add: remove_flagged_def)
  ultimately show ?thesis
    using assms by (simp add: on_message_passed rule_fires_def)
qed

theorem delete_failures_handled_witness:
  "on_message (example_bot Map.empty) [''42'' \<mapsto> True]
       (example_world (Inr '' Yes.'') (Inl Forbidden)) (example_message ''worthless'' 100) =
     ([Classify (prompt ''worthless''), Delete,
       Print ''Missing permissions to delete message in plastic.'',
       Send ''<@7> Offensive content detected but could not delete.'' None], Inr ()) \<and>
   on_message (example_bot [''42'' \<mapsto> banana_rule]) Map.empty
       (example_world (Inr ''no'') (Inl Forbidden)) (example_message ''I love banana bread'' 100) =
     ([Delete, Send ''<@7> no fruit talk'' None], Inr ()) \<and>
   on_message (example_bot Map.empty) [''42'' \<mapsto> True]
       (example_world (Inr '' Yes.'') (Inl NotFound)) (example_message ''worthless'' 100) =
     ([Classify (prompt ''worthless''), Delete], Inr ()) \<and>
   on_message (example_bot [''42'' \<mapsto> banana_rule]) Map.empty
       (example_world (Inr ''no'') (Inl NotFound)) (example_message ''I love banana bread'' 100) =
     ([Delete], Inr ()) \<and>
   on_message (example_bot Map.empty) [''42'' \<mapsto> True]
       (locked_world (Inr '' Yes.'')) (example_message ''worthless'' 100) =
     ([Classify (prompt ''worthless''), Delete,
       Print ''Missing permissions to delete message in plastic.'',
       Send ''<@7> Offensive content detected but could not delete.'' None], Inl Forbidden)"
proof -
  let ?on = "[''42'' \<mapsto> True] :: string \<rightharpoonup> bool"
  let ?bb = "example_bot [''42'' \<mapsto> banana_rule]"
  let ?mw = "example_message ''worthless'' 100"
  let ?mb = "example_message ''I love banana bread'' 100"
  have off: "\<And>d. classified_offensive ?on (example_world (Inr '' Yes.'') d) example_guild ?mw"
    by (simp add: classified_offensive_def example_enabled example_classification example_fields)
  have clean: "\<And>d. \<not> classified_offensive Map.empty (example_world (Inr ''no'') d) example_guild ?mb"
    by (simp add: classified_offensive_def example_enabled)
  have fires: "rule_fires ?bb example_guild ?mb banana_rule"
    by (simp add: rule_fires_def example_fields example_key example_rules example_matches)
  have log1: "\<And>d. classification_log ?on (example_world (Inr '' Yes.'') d) example_guild ?mw =
      [Classify (prompt ''worthless'')]"
    by (simp add: classification_log_def example_enabled example_classification example_fields)
  have log2: "\<And>d. classification_log Map.empty (example_world (Inr ''no'') d) example_guild ?mb = []"
    by (simp add: classification_log_def example_enabled)
  from delete_failures_handled[where m = "example_message ''worthless'' 100" and g = example_guild
      and b = "example_bot Map.empty" and amc = "?on" and w = "example_world (Inr '' Yes.'') (Inl Forbidden)"
      and config = banana_rule, OF example_passes] off
  have 1: "on_message (example_bot Map.empty) ?on
       (example_world (Inr '' Yes.'') (Inl Forbidden)) ?mw =
     ([Classify (prompt ''worthless''), Delete,
       Print ''Missing permissions to delete message in plastic.'',
       Send ''<@7> Offensive content detected but could not delete.'' None], Inr ())"
    by (simp add: example_fields log1)
  from delete_failures_handled[where m = "example_message ''I love banana bread'' 100" and g = example_guild
      and b = "example_bot [''42'' \<mapsto> banana_rule]" and amc = "Map.empty" and w = "example_world (Inr ''no'') (Inl Forbidden)"
      and config = banana_rule, OF example_passes]
    clean fires
  have 2: "on_message ?bb Map.empty (example_world (Inr ''no'') (Inl Forbidden)) ?mb =
     ([Delete, Send ''<@7> no fruit talk'' None], Inr ())"
    by (simp add: example_fields example_rules log2)
  from delete_failures_handled[where m = "example_message ''worthless'' 100" and g = example_guild
      and b = "example_bot Map.empty" and amc = "?on" and w = "example_world (Inr '' Yes.'') (Inl NotFound)"
      and config = banana_rule, OF example_passes] off
  have 3: "on_message (example_bot Map.empty) ?on
       (example_world (Inr '' Yes.'') (Inl NotFound)) ?mw =
     ([Classify (prompt ''worthless''), Delete], Inr ())"
    by (simp add: example_fields log1)
  from delete_failures_handled[where m = "example_message ''I love banana bread'' 100" and g = example_guild
      and b = "example_bot [''42'' \<mapsto> banana_rule]" and amc = "Map.empty" and w = "example_world (Inr ''no'') (Inl NotFound)"
      and config = banana_rule, OF example_passes]
    clean fires
  have 4: "on_message ?bb Map.empty (example_world (Inr ''no'') (Inl NotFound)) ?mb =
     ([Delete], Inr ())"
    by (simp add: example_fields example_rules log2)
  have off': "classified_offensive ?on (locked_world (Inr '' Yes.'')) example_guild ?mw"
    by (simp add: classified_offensive_def example_enabled locked_world_classification)
  have log3: "classification_log ?on (locked_world (Inr '' Yes.'')) example_guild ?mw =
      [Classify (prompt ''worthless'')]"
    by (simp add: classification_log_def example_enabled locked_world_classification example_fields)
  from delete_failures_handled[where m = "example_message ''worthless'' 100" and g = example_guild
      and b = "example_bot Map.empty" and amc = "?on" and w = "locked_world (Inr '' Yes.'')"
      and config = banana_rule, OF example_passes] off'
  have 5: "on_message (example_bot Map.empty) ?on (locked_world (Inr '' Yes.'')) ?mw =
     ([Classify (prompt ''worthless''), Delete,
       Print ''Missing permissions to delete message in plastic.'',
       Send ''<@7> Offensive content detected but could not delete.'' None], Inl Forbidden)"
    by (simp add: example_fields locked_world_fields log3)
  from 1 2 3 4 5 show ?thesis by blast
qed

text \<open>
  The claim as it was stated fails where the bot may neither delete nor send. A rule
  fires, the deletion is refused, the fallback warning is refused as well, and the
  handler ends with that exception instead of returning.
\<close>

theorem refused_fallback_send_escapes:
  "rule_fires (example_bot [''42'' \<mapsto> banana_rule]) example_guild
       (example_message ''I love banana bread'' 100) banana_rule \<and>
   delete (locked_world (Inr ''no'')) = Inl Forbidden \<and>
   on_message (example_bot [''42'' \<mapsto> banana_rule]) Map.empty
       (locked_world (Inr ''no'')) (example_message ''I love banana bread'' 100) =
     ([Delete, Send ''<@7> no fruit talk'' None], Inl Forbidden) \<and>
   snd (on_message (example_bot [''42'' \<mapsto> banana_rule]) Map.empty
       (locked_world (Inr ''no'')) (example_message ''I love banana bread'' 100)) \<noteq> Inr ()"
proof -
  let ?b = "example_bot [''42'' \<mapsto> banana_rule]"
  let ?m = "example_message ''I love banana bread'' 100"
  have fires: "rule_fires ?b example_guild ?m banana_rule"
    by (simp add: rule_fires_def example_fields example_key example_rules example_matches)
  have run: "on_message ?b Map.empty (locked_world (Inr ''no'')) ?m =
      ([Delete, Send ''<@7> no fruit talk'' None], Inl Forbidden)"
    by (simp add: example_run classified_offensive_def classification_log_def example_enabled
        example_fields example_key example_rules example_matches locked_world_removals)
  from fires run show ?thesis
    by (simp add: locked_world_fields)
qed

text \<open>
  Claim C9. Two runs on the same message and the same auto-moderation table, with bots
  that agree on the blacklist and the flagged-word entries and worlds that agree on the
  classifier's answer, take the same decision: the events up to the deletion are the
  same, and one run attempts the deletion exactly when the other does. The prefixes of
  the bot and the outcomes of deleting and sending have no part in it. When the worlds
  also agree on those outcomes, the two runs are identical.
\<close>

theorem decision_deterministic:
  assumes "generate_content w1 (prompt (content m)) = generate_content w2 (prompt (content m))"
    and "blacklist b1 = blacklist b2" and "flagged_words b1 = flagged_words b2"
  shows "takeWhile (\<lambda>e. e \<noteq> Delete) (fst (on_message b1 amc w1 m)) =
           takeWhile (\<lambda>e. e \<noteq> Delete) (fst (on_message b2 amc w2 m)) \<and>
         (Delete \<in> set (fst (on_message b1 amc w1 m)) \<longleftrightarrow>
            Delete \<in> set (fst (on_message b2 amc w2 m))) \<and>
         (delete w1 = delete w2 \<and> send w1 = send w2 \<longrightarrow>
            on_message b1 amc w1 m = on_message b2 amc w2 m)"
proof (cases "\<exists>g. guild m = Some g \<and> \<not> author_bot m \<and> author_id m \<notin> blacklist b1")
  case False
  with assms(2) have "on_message b1 amc w1 m = ([], Inr ())" "on_message b2 amc w2 m = ([], Inr ())"
    by (auto simp: on_message_def split: option.splits)
  then show ?thesis by simp
next
  case True
  then obtain g where g1: "guild m = Some g" "\<not> author_bot m" "author_id m \<notin> blacklist b1"
    by blast
  with assms(2) have g2: "guild m = Some g" "\<not> author_bot m" "author_id m \<notin> blacklist b2"
    by simp_all
  have io: "is_offensive_content w1 (content m) = is_offensive_content w2 (content m)"
    using assms(1) by (simp add: is_offensive_content_def)
  then have co: "classified_offensive amc w1 g m = classified_offensive amc w2 g m"
    and cl: "classification_log amc w1 g m = classification_log amc w2 g m"
    by (simp_all add: classified_offensive_def classification_log_def)
  have tw: "\<And>rest. takeWhile (\<lambda>e. e \<noteq> Delete) (classification_log amc w2 g m @ Delete # rest) =
      classification_log amc w2 g m"
    using classification_log_no_Delete[of amc w2 g m] by (simp add: takeWhile_append)
  obtain r1 r2 where ro: "fst (remove_offensive w1 m g) = Delete # r1"
      "fst (remove_offensive w2 m g) = Delete # r2"
    using remove_offensive_Delete by blast
  have rf: "\<And>t. \<exists>r1 r2. fst (remove_flagged w1 t) = Delete # r1 \<and>
      fst (remove_flagged w2 t) = Delete # r2"
    using remove_flagged_Delete by blast
  have same: "delete w1 = delete w2 \<and> send w1 = send w2 \<longrightarrow>
      remove_offensive w1 m g = remove_offensive w2 m g \<and>
      (\<forall>t. remove_flagged w1 t = remove_flagged w2 t)"
    using remove_offensive_cong[of w1 w2 m g] remove_flagged_cong[of w1 w2] by simp
  show ?thesis
  proof (cases "classified_offensive amc w2 g m")
    case True
    with co cl ro tw same classification_log_no_Delete[of amc w2 g m] show ?thesis
      by (simp add: on_message_passed[OF g1] on_message_passed[OF g2])
  next
    case no: False
    show ?thesis
    proof (cases "flagged_words b2 (str (gid g))")
      case None
      with no co cl assms(3) classification_log_no_Delete[of amc w2 g m] show ?thesis
        by (simp add: on_message_passed[OF g1] on_message_passed[OF g2] takeWhile_append)
    next
      case (Some config)
      from rf[of "warning_text config m"] obtain q1 q2 where
        q: "fst (remove_flagged w1 (warning_text config m)) = Delete # q1"
           "fst (remove_flagged w2 (warning_text config m)) = Delete # q2"
        by blast
      with Some no co cl assms(3) tw same classification_log_no_Delete[of amc w2 g m] show ?thesis
        by (simp add: on_message_passed[OF g1] on_message_passed[OF g2] takeWhile_append)
    qed
  qed
qed

theorem decision_deterministic_witness:
  "takeWhile (\<lambda>e. e \<noteq> Delete)
     (fst (on_message ((example_bot [''42'' \<mapsto> banana_rule])\<lparr>prefixes := [''42'' \<mapsto> ''!'']\<rparr>)
        [''42'' \<mapsto> True] (example_world (Inr ''no'') (Inl NotFound))
        (example_message ''I love banana bread'' 100))) =
     [Classify (prompt ''I love banana bread'')] \<and>
   Delete \<in> set (fst (on_message ((example_bot [''42'' \<mapsto> banana_rule])\<lparr>prefixes := [''42'' \<mapsto> ''!'']\<rparr>)
        [''42'' \<mapsto> True] (example_world (Inr ''no'') (Inl NotFound))
        (example_message ''I love banana bread'' 100)))"
proof -
  let ?b1 = "example_bot [''42'' \<mapsto> banana_rule]"
  let ?b2 = "?b1\<lparr>prefixes := [''42'' \<mapsto> ''!'']\<rparr>"
  let ?amc = "[''42'' \<mapsto> True] :: string \<rightharpoonup> bool"
  let ?w1 = "example_world (Inr ''no'') (Inr ())"
  let ?w2 = "example_world (Inr ''no'') (Inl NotFound)"
  let ?m = "example_message ''I love banana bread'' 100"
  have first: "on_message ?b1 ?amc ?w1 ?m =
      ([Classify (prompt ''I love banana bread''), Delete, Send ''<@7> no fruit talk'' (Some 10)], Inr ())"
    by (simp add: example_run classified_offensive_def classification_log_def example_enabled
        example_fields example_classification example_key example_rules example_matches
        example_removals)
  have h1: "generate_content ?w1 (prompt (content ?m)) = generate_content ?w2 (prompt (content ?m))"
    and h2: "blacklist ?b1 = blacklist ?b2" and h3: "flagged_words ?b1 = flagged_words ?b2"
    by (simp_all add: example_world_def)
  from decision_deterministic[OF h1 h2 h3, of ?amc] first
  show ?thesis by simp
qed

text \<open>
  Claim C10. The command processor is reached exactly when the message passes the
  fast-reject step, is not classified offensive and fires no flagged-word rule; put in
  terms of the events, exactly when something happened and no deletion was attempted.
\<close>

theorem commands_iff_no_moderation:
  "(ProcessCommands \<in> set (fst (on_message b amc w m)) \<longleftrightarrow>
     (\<exists>g. guild m = Some g \<and> \<not> author_bot m \<and> author_id m \<notin> blacklist b \<and>
          \<not> classified_offensive amc w g m \<and> (\<forall>config. \<not> rule_fires b g m config))) \<and>
   (ProcessCommands \<in> set (fst (on_message b amc w m)) \<longleftrightarrow>
      fst (on_message b amc w m) \<noteq> [] \<and> Delete \<notin> set (fst (on_message b amc w m)))"
proof (cases "\<exists>g. guild m = Some g \<and> \<not> author_bot m \<and> author_id m \<notin> blacklist b")
  case False
  then have "on_message b amc w m = ([], Inr ())"
    by (auto simp: on_message_def split: option.splits)
  with False show ?thesis by auto
next
  case True
  then obtain g where g: "guild m = Some g" "\<not> author_bot m" "author_id m \<notin> blacklist b"
    by blast
  note facts = classification_log_no_commands[of amc w g m] classification_log_no_Delete[of amc w g m]
    remove_offensive_no_commands[of w m g] remove_offensive_Delete[of w m g]
  show ?thesis
  proof (cases "classified_offensive amc w g m")
    case True
    with g facts show ?thesis
      by (auto simp: on_message_passed)
  next
    case no: False
    show ?thesis
    proof (cases "flagged_words b (str (gid g))")
      case None
      with g no facts show ?thesis
        by (auto simp: on_message_passed rule_fires_def)
    next
      case (Some config)
      with g no facts remove_flagged_no_commands[of w "warning_text config m"]
        remove_flagged_Delete[of w "warning_text config m"]
      show ?thesis
        by (auto simp: on_message_passed rule_fires_def)
    qed
  qed
qed

theorem commands_iff_no_moderation_witness:
  "ProcessCommands \<in> set (fst (on_message (example_bot [''42'' \<mapsto> banana_rule]) Map.empty
       (example_world (Inr ''no'') (Inr ())) (example_message ''hello there'' 100))) \<and>
   ProcessCommands \<notin> set (fst (on_message (example_bot [''42'' \<mapsto> banana_rule]) Map.empty
       (example_world (Inr ''no'') (Inr ())) (example_message ''I love banana bread'' 100)))"
proof -
  let ?b = "example_bot [''42'' \<mapsto> banana_rule]"
  let ?w = "example_world (Inr ''no'') (Inr ())"
  have clean: "\<And>m. \<not> classified_offensive Map.empty ?w example_guild m"
    by (simp add: classified_offensive_def example_enabled)
  have quiet: "\<forall>config. \<not> rule_fires ?b example_guild (example_message ''hello there'' 100) config"
    by (auto simp: rule_fires_def example_fields example_key example_rules example_matches)
  have fires: "rule_fires ?b example_guild (example_message ''I love banana bread'' 100) banana_rule"
    by (simp add: rule_fires_def example_fields example_key example_rules example_matches)
  have 1: "ProcessCommands \<in> set (fst (on_message ?b Map.empty ?w (example_message ''hello there'' 100)))"
    using commands_iff_no_moderation[of ?b Map.empty ?w "example_message ''hello there'' 100"]
      example_passes clean quiet
    by blast
  have 2: "ProcessCommands \<notin> set (fst (on_message ?b Map.empty ?w (example_message ''I love banana bread'' 100)))"
    using commands_iff_no_moderation[of ?b Map.empty ?w "example_message ''I love banana bread'' 100"]
      example_passes fires
    by auto
  from 1 2 show ?thesis by blast
qed

end
